theory Spec2Isabelle
  imports Complex_Main "HOL-Library.Sublist"
begin

section \<open>Strings as the matcher uses them\<close>

text \<open>
  A Python \<open>str\<close> is modelled as a \<open>string\<close>, one \<open>char\<close> per code point, which
  covers the code points 0 to 255 (Latin-1). On that range \<open>str.lower\<close> maps one code
  point to one code point, and the whitespace and line-boundary classes of
  \<open>str.strip\<close> and \<open>str.splitlines\<close> are the finite sets written out below.
\<close>

definition isspace :: "char \<Rightarrow> bool" where
  "isspace c \<longleftrightarrow>
     (let n = (of_char c :: nat)
      in (9 \<le> n \<and> n \<le> 13) \<or> (28 \<le> n \<and> n \<le> 32) \<or> n = 133 \<or> n = 160)"

definition islinebreak :: "char \<Rightarrow> bool" where
  "islinebreak c \<longleftrightarrow>
     (let n = (of_char c :: nat)
      in (10 \<le> n \<and> n \<le> 13) \<or> (28 \<le> n \<and> n \<le> 30) \<or> n = 133)"

definition lower_char :: "char \<Rightarrow> char" where
  "lower_char c =
     (let n = (of_char c :: nat)
      in if (65 \<le> n \<and> n \<le> 90) \<or> (192 \<le> n \<and> n \<le> 222 \<and> n \<noteq> 215)
         then char_of (n + 32) else c)"

definition lower :: "string \<Rightarrow> string" where
  "lower s = map lower_char s"

definition strip :: "string \<Rightarrow> string" where
  "strip s = rev (dropWhile isspace (rev (dropWhile isspace s)))"

definition startswith :: "string \<Rightarrow> string \<Rightarrow> bool" where
  "startswith s p \<longleftrightarrow> take (length p) s = p"

definition endswith :: "string \<Rightarrow> string \<Rightarrow> bool" where
  "endswith s p \<longleftrightarrow> length p \<le> length s \<and> drop (length s - length p) s = p"

text \<open>Python's \<open>p in s\<close> on strings: \<open>p\<close> occurs in \<open>s\<close> at some offset.\<close>

fun str_in :: "string \<Rightarrow> string \<Rightarrow> bool" where
  "str_in p [] \<longleftrightarrow> p = []"
| "str_in p (c # cs) \<longleftrightarrow> startswith (c # cs) p \<or> str_in p cs"

text \<open>
  \<open>str.splitlines\<close>: the text is cut at every line boundary, \<open>\r\n\<close> counts as one
  boundary, and a boundary at the very end opens no further line.
\<close>

fun splitlines_from :: "string \<Rightarrow> string \<Rightarrow> string list" where
  "splitlines_from cur [] = (if cur = [] then [] else [cur])"
| "splitlines_from cur [c] =
     (if islinebreak c then [cur] else [cur @ [c]])"
| "splitlines_from cur (c # d # ds) =
     (if c = CHR 0x0D \<and> d = CHR 0x0A then cur # splitlines_from [] ds
      else if islinebreak c then cur # splitlines_from [] (d # ds)
      else splitlines_from (cur @ [c]) (d # ds))"

definition splitlines :: "string \<Rightarrow> string list" where
  "splitlines s = splitlines_from [] s"

text \<open>\<open>sep.join(parts)\<close>.\<close>

fun join :: "string \<Rightarrow> string list \<Rightarrow> string" where
  "join sep [] = []"
| "join sep [x] = x"
| "join sep (x # y # ys) = x @ sep @ join sep (y # ys)"


section \<open>Utilities of the application\<close>

text \<open>\<open>normalize(s)\<close> is \<open>s.lower().strip()\<close>.\<close>

definition normalize :: "string \<Rightarrow> string" where
  "normalize s = strip (lower s)"

text \<open>
  \<open>contains_whole_team(line, team)\<close>: the line is lowercased, not stripped, and the
  seven tests of the source are evaluated in their order.
\<close>

definition contains_whole_team :: "string \<Rightarrow> string \<Rightarrow> bool" where
  "contains_whole_team line team \<longleftrightarrow>
     (let line_low = lower line
      in line_low = team
         \<or> startswith line_low (team @ '' '')
         \<or> endswith line_low ('' '' @ team)
         \<or> str_in ('' '' @ team @ '' '') line_low
         \<or> startswith line_low (team @ [CHR 0x09])
         \<or> endswith line_low ([CHR 0x09] @ team)
         \<or> str_in ([CHR 0x09] @ team @ [CHR 0x09]) line_low)"


section \<open>Documents\<close>

text \<open>
  What the application reads from the PDF library: per page the plain text
  (\<open>get_text("text")\<close>), the layout blocks (\<open>get_text("dict")["blocks"]\<close>) with their
  lines and spans, and the highlight annotations drawn on the page so far.
\<close>

type_synonym bbox = "real \<times> real \<times> real \<times> real"

datatype rect = Rect real real real real

record span =
  span_text :: string
  span_bbox :: bbox

record layout_line =
  spans :: "span list"

record block =
  block_type :: int
  block_lines :: "layout_line list"

record page =
  plain_text :: string
  blocks :: "block list"
  annots :: "rect list"

type_synonym document = "page list"

text \<open>
  An entry of the match list: the dictionary with keys \<open>page\<close>, \<open>line_num\<close>, \<open>text\<close>.
  The two indices are naturals, as \<open>range\<close> and \<open>enumerate\<close> produce them.
\<close>

record match_entry =
  m_page :: nat
  m_line_num :: nat
  m_text :: string


section \<open>The matcher\<close>

definition find_matches :: "document \<Rightarrow> string \<Rightarrow> string \<Rightarrow> match_entry list" where
  "find_matches doc query mode =
     (let q = normalize query
      in fold (\<lambda>pageno matches.
                 let pg = doc ! pageno;
                     lines = splitlines (plain_text pg)
                 in fold (\<lambda>(i, line) matches.
                            let line_low = normalize line
                            in if mode = ''Team Code''
                               then (if contains_whole_team line q
                                     then matches @ [\<lparr>m_page = pageno, m_line_num = i, m_text = line\<rparr>]
                                     else matches)
                               else (if str_in q line_low
                                     then matches @ [\<lparr>m_page = pageno, m_line_num = i, m_text = line\<rparr>]
                                     else matches))
                         (enumerate 0 lines) matches)
              [0..<length doc] [])"


section \<open>The highlighter\<close>

text \<open>
  The ways a call can fail: the PDF library cannot open the bytes, a page index is
  not a page of the document, \<open>min\<close> or \<open>max\<close> is applied to an empty sequence.
\<close>

datatype error = DocumentError | IndexError | ValueError

text \<open>Python's \<open>min\<close> and \<open>max\<close> over an iterable keep the first extremal item.\<close>

fun py_min :: "real list \<Rightarrow> error + real" where
  "py_min [] = Inl ValueError"
| "py_min (x # xs) = Inr (fold (\<lambda>item cur. if item < cur then item else cur) xs x)"

fun py_max :: "real list \<Rightarrow> error + real" where
  "py_max [] = Inl ValueError"
| "py_max (x # xs) = Inr (fold (\<lambda>item cur. if item > cur then item else cur) xs x)"

text \<open>The components \<open>bbox[0]\<close>, \<open>bbox[1]\<close>, \<open>bbox[2]\<close>, \<open>bbox[3]\<close> of a span's box.\<close>

fun bbox_x0 :: "bbox \<Rightarrow> real" where "bbox_x0 (a, b, c, d) = a"
fun bbox_y0 :: "bbox \<Rightarrow> real" where "bbox_y0 (a, b, c, d) = b"
fun bbox_x1 :: "bbox \<Rightarrow> real" where "bbox_x1 (a, b, c, d) = c"
fun bbox_y1 :: "bbox \<Rightarrow> real" where "bbox_y1 (a, b, c, d) = d"

text \<open>The combined bounding box of a layout line, \<open>x0\<close>, \<open>y0\<close>, \<open>x1\<close>, \<open>y1\<close> in that order.\<close>

definition line_rect :: "layout_line \<Rightarrow> error + rect" where
  "line_rect line =
     (case py_min (map (\<lambda>s. bbox_x0 (span_bbox s)) (spans line)) of
        Inl e \<Rightarrow> Inl e
      | Inr x0 \<Rightarrow>
     (case py_min (map (\<lambda>s. bbox_y0 (span_bbox s)) (spans line)) of
        Inl e \<Rightarrow> Inl e
      | Inr y0 \<Rightarrow>
     (case py_max (map (\<lambda>s. bbox_x1 (span_bbox s)) (spans line)) of
        Inl e \<Rightarrow> Inl e
      | Inr x1 \<Rightarrow>
     (case py_max (map (\<lambda>s. bbox_y1 (span_bbox s)) (spans line)) of
        Inl e \<Rightarrow> Inl e
      | Inr y1 \<Rightarrow> Inr (Rect x0 y0 x1 y1)))))"

text \<open>\<open>page.add_highlight_annot(rect)\<close> followed by \<open>annot.update()\<close>.\<close>

definition add_highlight_annot :: "page \<Rightarrow> rect \<Rightarrow> page" where
  "add_highlight_annot pg r = pg\<lparr>annots := annots pg @ [r]\<rparr>"

text \<open>The loop over the lines of one text block.\<close>

fun highlight_block_lines :: "string \<Rightarrow> layout_line list \<Rightarrow> page \<Rightarrow> error + page" where
  "highlight_block_lines target_text [] pg = Inr pg"
| "highlight_block_lines target_text (line # rest) pg =
     (let span_text = strip (join '' '' (map span_text (spans line)))
      in if normalize span_text = normalize target_text
         then (case line_rect line of
                 Inl e \<Rightarrow> Inl e
               | Inr r \<Rightarrow> highlight_block_lines target_text rest (add_highlight_annot pg r))
         else highlight_block_lines target_text rest pg)"

text \<open>The loop over the blocks of the page; a block whose type is not 0 is passed over.\<close>

fun highlight_blocks :: "string \<Rightarrow> block list \<Rightarrow> page \<Rightarrow> error + page" where
  "highlight_blocks target_text [] pg = Inr pg"
| "highlight_blocks target_text (blk # rest) pg =
     (if block_type blk \<noteq> 0 then highlight_blocks target_text rest pg
      else (case highlight_block_lines target_text (block_lines blk) pg of
              Inl e \<Rightarrow> Inl e
            | Inr pg' \<Rightarrow> highlight_blocks target_text rest pg'))"

text \<open>The loop over the matches; \<open>doc[m["page"]]\<close> fails beyond the last page.\<close>

fun highlight_matches :: "document \<Rightarrow> match_entry list \<Rightarrow> error + document" where
  "highlight_matches doc [] = Inr doc"
| "highlight_matches doc (m # rest) =
     (if m_page m < length doc
      then (let pg = doc ! m_page m;
                lines = blocks pg;
                target_text = strip (m_text m)
            in case highlight_blocks target_text lines pg of
                 Inl e \<Rightarrow> Inl e
               | Inr pg' \<Rightarrow> highlight_matches (doc[m_page m := pg']) rest)
      else Inl IndexError)"

text \<open>
  \<open>highlight_lines(input_bytes, matches)\<close>. Opening and saving belong to the PDF
  library and are parameters: \<open>fitz_open\<close> gives no document for bytes it cannot
  parse, \<open>save\<close> serialises a document.
\<close>

definition highlight_lines ::
  "('b \<Rightarrow> document option) \<Rightarrow> (document \<Rightarrow> 'b) \<Rightarrow> 'b \<Rightarrow> match_entry list \<Rightarrow> error + 'b" where
  "highlight_lines fitz_open save input_bytes matches =
     (case fitz_open input_bytes of
        None \<Rightarrow> Inl DocumentError
      | Some doc \<Rightarrow>
          (case highlight_matches doc matches of
             Inl e \<Rightarrow> Inl e
           | Inr doc' \<Rightarrow> Inr (save doc')))"


section \<open>Vocabulary of the specification\<close>

text \<open>The plain-text lines of page \<open>p\<close>.\<close>

definition page_lines :: "document \<Rightarrow> nat \<Rightarrow> string list" where
  "page_lines doc p = splitlines (plain_text (doc ! p))"

text \<open>
  A single forward scan of pages, then lines: every line of every page as an entry
  with its page index, its line index and its text as extracted.
\<close>

definition page_entries :: "document \<Rightarrow> nat \<Rightarrow> match_entry list" where
  "page_entries doc p =
     map (\<lambda>(i, line). \<lparr>m_page = p, m_line_num = i, m_text = line\<rparr>)
         (enumerate 0 (page_lines doc p))"

definition scan_order :: "document \<Rightarrow> match_entry list" where
  "scan_order doc = concat (map (page_entries doc) [0..<length doc])"

definition scan_before :: "match_entry \<Rightarrow> match_entry \<Rightarrow> bool" where
  "scan_before a b \<longleftrightarrow>
     m_page a < m_page b \<or> (m_page a = m_page b \<and> m_line_num a < m_line_num b)"

text \<open>The test the matcher applies to one line, by mode.\<close>

definition line_hit :: "string \<Rightarrow> string \<Rightarrow> string \<Rightarrow> bool" where
  "line_hit mode q line \<longleftrightarrow>
     (if mode = ''Team Code'' then contains_whole_team line q else str_in q (normalize line))"

text \<open>
  The free-standing-token rule in the words of the specification, for a line \<open>s\<close>
  and a query \<open>q\<close>: \<open>s\<close> equals \<open>q\<close>, starts with \<open>q\<close> and a space or tab, ends with a
  space or tab and \<open>q\<close>, or contains \<open>q\<close> between two spaces or between two tabs.
\<close>

definition free_standing :: "string \<Rightarrow> string \<Rightarrow> bool" where
  "free_standing s q \<longleftrightarrow>
     s = q
     \<or> prefix (q @ '' '') s \<or> prefix (q @ [CHR 0x09]) s
     \<or> suffix ('' '' @ q) s \<or> suffix ([CHR 0x09] @ q) s
     \<or> sublist ('' '' @ q @ '' '') s \<or> sublist ([CHR 0x09] @ q @ [CHR 0x09]) s"

text \<open>The text of a layout line as the highlighter rebuilds it, trimmed.\<close>

definition layout_text :: "layout_line \<Rightarrow> string" where
  "layout_text line = strip (join '' '' (map span_text (spans line)))"

text \<open>The layout lines of the text-bearing blocks of a page, in layout order.\<close>

definition text_lines :: "page \<Rightarrow> layout_line list" where
  "text_lines pg = concat (map block_lines (filter (\<lambda>blk. block_type blk = 0) (blocks pg)))"

text \<open>The layout lines of the page of \<open>m\<close> whose rebuilt text equals the text of \<open>m\<close>.\<close>

definition located :: "document \<Rightarrow> match_entry \<Rightarrow> layout_line list" where
  "located doc m =
     filter (\<lambda>line. normalize (layout_text line) = normalize (m_text m))
            (text_lines (doc ! m_page m))"

text \<open>The union of the bounding boxes of the spans of a layout line.\<close>

definition union_rect :: "layout_line \<Rightarrow> rect" where
  "union_rect line =
     Rect (Min ((\<lambda>s. bbox_x0 (span_bbox s)) ` set (spans line)))
          (Min ((\<lambda>s. bbox_y0 (span_bbox s)) ` set (spans line)))
          (Max ((\<lambda>s. bbox_x1 (span_bbox s)) ` set (spans line)))
          (Max ((\<lambda>s. bbox_y1 (span_bbox s)) ` set (spans line)))"


text \<open>
  What the highlighter does for one match when nothing fails: the union rectangle of
  every located line, in layout order, is added to the annotations of the page of
  the match. \<open>drawn\<close> does so for a list of matches, in order.
\<close>

definition draw :: "document \<Rightarrow> match_entry \<Rightarrow> document" where
  "draw doc m =
     doc[m_page m := (doc ! m_page m)
           \<lparr>annots := annots (doc ! m_page m) @ map union_rect (located doc m)\<rparr>]"

definition drawn :: "document \<Rightarrow> match_entry list \<Rightarrow> document" where
  "drawn doc ms = fold (\<lambda>m d. draw d m) ms doc"

text \<open>
  A match the highlighter gets through: its page exists and every located line has
  at least one span.
\<close>

definition locatable :: "document \<Rightarrow> match_entry \<Rightarrow> bool" where
  "locatable doc m \<longleftrightarrow>
     m_page m < length doc \<and> (\<forall>line \<in> set (located doc m). spans line \<noteq> [])"


section \<open>Example documents\<close>

text \<open>A page with plain text only, and the documents the examples below run on.\<close>

definition text_page :: "string \<Rightarrow> page" where
  "text_page s = \<lparr>plain_text = s, blocks = [], annots = []\<rparr>"

definition codes_doc :: document where
  "codes_doc = [text_page (''MAC-MA'' @ [CHR 0x0A] @ ''EMAC-MA'')]"

definition padded_doc :: document where
  "padded_doc = [text_page ('' MAC-MA'' @ [CHR 0x09])]"

definition spaced_doc :: document where
  "spaced_doc = [text_page ''a  b'']"

definition names_doc :: document where
  "names_doc =
     [text_page (''Heat 1'' @ [CHR 0x0A] @ ''Lane 4'' @ [CHR 0x0A] @ ''John Smith''),
      text_page (''JOHN SMITH  1:23.45'' @ [CHR 0x0A] @ ''Jane Doe'')]"


text \<open>
  A page with layout: an image block, a text block with the lines \<open>Relay\<close> and
  \<open>MAC-MA John Smith\<close> (the latter in two spans), and a text block with the line
  \<open>MAC-MA John Smith\<close> again; a match that is located twice and one that is not
  located; and a stand-in for the PDF library in which the stored form of a document
  is the document itself and \<open>None\<close> is a stream that does not parse.
\<close>

definition relay_line :: layout_line where
  "relay_line = \<lparr>spans = [\<lparr>span_text = ''Relay'', span_bbox = (10, 50, 40, 62)\<rparr>]\<rparr>"

definition split_line :: layout_line where
  "split_line =
     \<lparr>spans = [\<lparr>span_text = ''MAC-MA'', span_bbox = (10, 100, 50, 112)\<rparr>,
               \<lparr>span_text = ''John Smith'', span_bbox = (60, 98, 130, 110)\<rparr>]\<rparr>"

definition whole_line :: layout_line where
  "whole_line = \<lparr>spans = [\<lparr>span_text = ''MAC-MA John Smith'', span_bbox = (10, 200, 130, 212)\<rparr>]\<rparr>"

definition layout_doc :: document where
  "layout_doc =
     [\<lparr>plain_text = ''Relay'' @ [CHR 0x0A] @ ''MAC-MA John Smith'' @ [CHR 0x0A] @ ''MAC-MA John Smith'',
       blocks = [\<lparr>block_type = 1, block_lines = []\<rparr>,
                 \<lparr>block_type = 0, block_lines = [relay_line, split_line]\<rparr>,
                 \<lparr>block_type = 0, block_lines = [whole_line]\<rparr>],
       annots = []\<rparr>]"

definition team_match :: match_entry where
  "team_match = \<lparr>m_page = 0, m_line_num = 1, m_text = ''MAC-MA John Smith''\<rparr>"

definition lost_match :: match_entry where
  "lost_match = \<lparr>m_page = 0, m_line_num = 0, m_text = ''Relay  Team''\<rparr>"

definition example_open :: "document option \<Rightarrow> document option" where
  "example_open stored = stored"

definition example_save :: "document \<Rightarrow> document option" where
  "example_save doc = Some doc"


section \<open>Strings: the operations against their meaning\<close>

lemma startswith_prefix: "startswith s p \<longleftrightarrow> prefix p s"
  unfolding startswith_def by (metis prefix_def append_take_drop_id append_eq_conv_conj)

lemma endswith_suffix: "endswith s p \<longleftrightarrow> suffix p s"
  unfolding endswith_def suffix_def
  by (metis append_eq_conv_conj append_take_drop_id diff_add_inverse2 length_append
      le_add2 length_drop)

lemma str_in_sublist: "str_in p s \<longleftrightarrow> sublist p s"
  by (induction s) (auto simp: startswith_prefix sublist_Cons_right)

lemma contains_whole_team_free_standing:
  "contains_whole_team line team \<longleftrightarrow> free_standing (lower line) team"
  unfolding contains_whole_team_def free_standing_def Let_def
    startswith_prefix endswith_suffix str_in_sublist
  by blast


section \<open>Lowercasing and trimming\<close>

lemma of_char_lower_char:
  "(of_char (lower_char c) :: nat) =
     (let n = (of_char c :: nat)
      in if (65 \<le> n \<and> n \<le> 90) \<or> (192 \<le> n \<and> n \<le> 222 \<and> n \<noteq> 215) then n + 32 else n)"
  unfolding lower_char_def Let_def by simp

lemma isspace_lower_char: "isspace (lower_char c) \<longleftrightarrow> isspace c"
  unfolding isspace_def of_char_lower_char Let_def by auto

lemma lower_char_idem: "lower_char (lower_char c) = lower_char c"
proof -
  have "(of_char (lower_char (lower_char c)) :: nat) = of_char (lower_char c)"
    unfolding of_char_lower_char [of "lower_char c"] Let_def
    unfolding of_char_lower_char Let_def by auto
  then show ?thesis by simp
qed

lemma lower_char_eq_space: "lower_char c = CHR '' '' \<longleftrightarrow> c = CHR '' ''"
proof -
  have "lower_char c = CHR '' '' \<longleftrightarrow> (of_char (lower_char c) :: nat) = of_char (CHR '' '')"
    by (simp only: of_char_eq_iff)
  also have "\<dots> \<longleftrightarrow> (of_char c :: nat) = of_char (CHR '' '')"
    unfolding of_char_lower_char Let_def by auto
  also have "\<dots> \<longleftrightarrow> c = CHR '' ''" by (simp only: of_char_eq_iff)
  finally show ?thesis .
qed

lemma lower_char_eq_tab: "lower_char c = CHR 0x09 \<longleftrightarrow> c = CHR 0x09"
proof -
  have "lower_char c = CHR 0x09 \<longleftrightarrow> (of_char (lower_char c) :: nat) = of_char (CHR 0x09)"
    by (simp only: of_char_eq_iff)
  also have "\<dots> \<longleftrightarrow> (of_char c :: nat) = of_char (CHR 0x09)"
    unfolding of_char_lower_char Let_def by auto
  also have "\<dots> \<longleftrightarrow> c = CHR 0x09" by (simp only: of_char_eq_iff)
  finally show ?thesis .
qed


lemma dropWhile_head_kept:
  assumes "xs = [] \<or> \<not> P (hd xs)"
  shows "dropWhile P (rev (dropWhile P (rev xs))) = rev (dropWhile P (rev xs))"
proof (cases "dropWhile P (rev xs) = []")
  case True
  show ?thesis unfolding True by simp
next
  case False
  then have ne: "xs \<noteq> []" by auto
  have "hd (rev (dropWhile P (rev xs))) = last (dropWhile P (rev xs))"
    using False by (simp add: hd_rev)
  also have "\<dots> = last (rev xs)"
    using False by (metis last_appendR takeWhile_dropWhile_id)
  also have "\<dots> = hd xs" using ne by (simp add: last_rev)
  finally have "\<not> P (hd (rev (dropWhile P (rev xs))))" using assms ne by simp
  with False show ?thesis by (cases "rev (dropWhile P (rev xs))") auto
qed

lemma dropWhile_starts: "dropWhile P xs = [] \<or> \<not> P (hd (dropWhile P xs))"
  by (metis hd_dropWhile)

lemma strip_idem: "strip (strip s) = strip s"
  unfolding strip_def
  by (simp add: dropWhile_head_kept [OF dropWhile_starts])

lemma strip_lower: "strip (lower s) = lower (strip s)"
proof -
  have "isspace \<circ> lower_char = isspace" by (rule ext) (simp add: isspace_lower_char)
  then show ?thesis
    unfolding strip_def lower_def by (simp add: dropWhile_map rev_map)
qed

lemma normalize_strip: "normalize (strip s) = normalize s"
  unfolding normalize_def by (simp add: strip_lower [symmetric] strip_idem)

lemma sublist_strip: "sublist (strip s) s"
proof -
  have "prefix (rev (dropWhile isspace (rev (dropWhile isspace s)))) (dropWhile isspace s)"
    by (metis suffix_dropWhile suffix_to_prefix rev_rev_ident)
  moreover have "suffix (dropWhile isspace s) s" by (rule suffix_dropWhile)
  ultimately show ?thesis unfolding strip_def
    by (meson prefix_imp_sublist suffix_imp_sublist sublist_order.order_trans)
qed

lemma normalize_lowered:
  assumes "c \<in> set (normalize s)"
  shows "lower_char c = c"
proof -
  have "set (normalize s) \<subseteq> set (lower s)"
    unfolding normalize_def by (rule set_mono_sublist [OF sublist_strip])
  with assms obtain d where "c = lower_char d" unfolding lower_def by auto
  then show ?thesis by (simp add: lower_char_idem)
qed

lemma sublist_normalize_query:
  assumes "sublist query (normalize line)"
  shows "sublist (normalize query) (normalize line)"
proof -
  have "lower query = query"
    unfolding lower_def
    using set_mono_sublist [OF assms] by (intro map_idI) (auto simp: normalize_lowered)
  then have "sublist (normalize query) query"
    unfolding normalize_def using sublist_strip [of query] by simp
  with assms show ?thesis by (rule sublist_order.order_trans [rotated])
qed


section \<open>The matcher is a filter over the scan\<close>

lemma fold_append_list:
  "fold (\<lambda>x acc. acc @ g x) xs acc = acc @ concat (map g xs)"
  by (induction xs arbitrary: acc) auto

lemma scan_page_lines:
  "fold (\<lambda>(i, line) matches.
            if mode = ''Team Code''
            then (if contains_whole_team line q
                  then matches @ [\<lparr>m_page = p, m_line_num = i, m_text = line\<rparr>]
                  else matches)
            else (if str_in q (normalize line)
                  then matches @ [\<lparr>m_page = p, m_line_num = i, m_text = line\<rparr>]
                  else matches))
         xs acc
   = acc @ map (\<lambda>(i, line). \<lparr>m_page = p, m_line_num = i, m_text = line\<rparr>)
             (filter (\<lambda>(i, line). line_hit mode q line) xs)"
  by (induction xs arbitrary: acc) (simp_all add: line_hit_def split: prod.splits)

lemma page_entries_filter:
  "map (\<lambda>(i, line). \<lparr>m_page = p, m_line_num = i, m_text = line\<rparr>)
       (filter (\<lambda>(i, line). line_hit mode q line) xs)
   = filter (\<lambda>m. line_hit mode q (m_text m))
       (map (\<lambda>(i, line). \<lparr>m_page = p, m_line_num = i, m_text = line\<rparr>) xs)"
  by (induction xs) auto

lemma find_matches_scan:
  "find_matches doc query mode
   = filter (\<lambda>m. line_hit mode (normalize query) (m_text m)) (scan_order doc)"
proof -
  have "find_matches doc query mode
        = fold (\<lambda>p acc. acc @ filter (\<lambda>m. line_hit mode (normalize query) (m_text m))
                                (page_entries doc p))
            [0..<length doc] []"
    unfolding find_matches_def Let_def scan_page_lines page_entries_filter
      page_entries_def page_lines_def ..
  also have "\<dots> = concat (map (\<lambda>p. filter (\<lambda>m. line_hit mode (normalize query) (m_text m))
                                    (page_entries doc p)) [0..<length doc])"
    by (simp add: fold_append_list)
  also have "\<dots> = filter (\<lambda>m. line_hit mode (normalize query) (m_text m)) (scan_order doc)"
    by (simp add: scan_order_def filter_concat comp_def)
  finally show ?thesis .
qed

lemma in_page_entries:
  "m \<in> set (page_entries doc p) \<longleftrightarrow>
     m_page m = p \<and> m_line_num m < length (page_lines doc p)
     \<and> m_text m = page_lines doc p ! m_line_num m"
proof
  assume "m \<in> set (page_entries doc p)"
  then obtain i line where il: "(i, line) \<in> set (enumerate 0 (page_lines doc p))"
    and m: "m = \<lparr>m_page = p, m_line_num = i, m_text = line\<rparr>"
    unfolding page_entries_def by auto
  from il have "i < length (page_lines doc p)" "line = page_lines doc p ! i"
    by (simp_all add: in_set_enumerate_eq)
  with m show "m_page m = p \<and> m_line_num m < length (page_lines doc p)
     \<and> m_text m = page_lines doc p ! m_line_num m"
    by simp
next
  assume a: "m_page m = p \<and> m_line_num m < length (page_lines doc p)
     \<and> m_text m = page_lines doc p ! m_line_num m"
  then have "(m_line_num m, m_text m) \<in> set (enumerate 0 (page_lines doc p))"
    by (simp add: in_set_enumerate_eq)
  then have "(\<lambda>(i, line). \<lparr>m_page = p, m_line_num = i, m_text = line\<rparr>) (m_line_num m, m_text m)
             \<in> set (page_entries doc p)"
    unfolding page_entries_def set_map by (rule imageI)
  with a show "m \<in> set (page_entries doc p)" by (cases m) simp
qed

lemma in_scan_order:
  "m \<in> set (scan_order doc) \<longleftrightarrow>
     m_page m < length doc \<and> m_line_num m < length (page_lines doc (m_page m))
     \<and> m_text m = page_lines doc (m_page m) ! m_line_num m"
  unfolding scan_order_def by (auto simp: in_page_entries)

lemma page_entries_sorted: "sorted_wrt scan_before (page_entries doc p)"
proof -
  have "sorted_wrt (\<lambda>a b. fst a < fst b) (enumerate n xs)" for n and xs :: "string list"
    by (induction xs arbitrary: n) (auto simp: in_set_enumerate_eq)
  then show ?thesis
    unfolding page_entries_def sorted_wrt_map
    by (rule sorted_wrt_mono_rel [rotated]) (auto simp: scan_before_def)
qed

lemma scan_order_sorted_upto:
  "sorted_wrt scan_before (concat (map (page_entries doc) [0..<n]))"
proof (induction n)
  case 0
  show ?case by simp
next
  case (Suc n)
  have cross: "\<forall>a \<in> set (concat (map (page_entries doc) [0..<n])).
                 \<forall>b \<in> set (page_entries doc n). scan_before a b"
    by (auto simp: in_page_entries scan_before_def)
  show ?case
    using Suc page_entries_sorted [of doc n] cross
    by (simp add: sorted_wrt_append)
qed

lemma scan_order_sorted: "sorted_wrt scan_before (scan_order doc)"
  unfolding scan_order_def by (rule scan_order_sorted_upto)

lemma find_matches_member:
  "\<lparr>m_page = p, m_line_num = i, m_text = line\<rparr> \<in> set (find_matches doc query mode) \<longleftrightarrow>
     p < length doc \<and> i < length (page_lines doc p) \<and> page_lines doc p ! i = line
     \<and> line_hit mode (normalize query) line"
  unfolding find_matches_scan by (auto simp: in_scan_order)


section \<open>Properties of the matcher\<close>

text \<open>
  C1, as the code has it. In Team Code mode the entry of line \<open>i\<close> of page \<open>p\<close> is in
  the result exactly when the free-standing-token rule holds between the lowercased
  line, which is not trimmed, and the normalized query.
\<close>

theorem team_code_rule:
  "\<lparr>m_page = p, m_line_num = i, m_text = line\<rparr> \<in> set (find_matches doc query ''Team Code'') \<longleftrightarrow>
     p < length doc \<and> i < length (page_lines doc p) \<and> page_lines doc p ! i = line
     \<and> free_standing (lower line) (normalize query)"
  unfolding find_matches_member
  by (simp add: line_hit_def contains_whole_team_free_standing)

text \<open>
  The two lines named by the specification: the line \<open>MAC-MA\<close> matches the query
  \<open>mac-ma\<close>, the line \<open>EMAC-MA\<close> does not.
\<close>

theorem team_code_rule_witness:
  "\<lparr>m_page = 0, m_line_num = 0, m_text = ''MAC-MA''\<rparr>
     \<in> set (find_matches codes_doc ''mac-ma'' ''Team Code'')
   \<and> \<lparr>m_page = 0, m_line_num = 1, m_text = ''EMAC-MA''\<rparr>
     \<notin> set (find_matches codes_doc ''mac-ma'' ''Team Code'')"
proof -
  have l: "page_lines codes_doc 0 = [''MAC-MA'', ''EMAC-MA'']" by code_simp
  have a: "free_standing (lower ''MAC-MA'') (normalize ''mac-ma'')" by code_simp
  have b: "\<not> free_standing (lower ''EMAC-MA'') (normalize ''mac-ma'')" by code_simp
  have n: "length codes_doc = 1" by (simp add: codes_doc_def)
  show ?thesis
    using team_code_rule [of 0 0 "''MAC-MA''" codes_doc "''mac-ma''"]
      team_code_rule [of 0 1 "''EMAC-MA''" codes_doc "''mac-ma''"] l a b n
    by simp
qed

text \<open>
  C1 as stated fails. The page holds the single line \<open>MAC-MA\<close> with a space before it
  and a tab after it; its normalized form equals the normalized query, so the rule
  holds of the normalized line, and the matcher returns nothing.
\<close>

theorem team_code_trimmed_counterexample:
  "page_lines padded_doc 0 = ['' MAC-MA'' @ [CHR 0x09]]
   \<and> free_standing (normalize ('' MAC-MA'' @ [CHR 0x09])) (normalize ''mac-ma'')
   \<and> find_matches padded_doc ''mac-ma'' ''Team Code'' = []"
  by code_simp

text \<open>
  C8. The result is in scan order, strictly increasing by page index and then by line
  index; it is the scan of all lines with the lines that do not match left out; and
  every entry carries the index of its page, the index of its line within the page
  and the text of that line as extracted.
\<close>

theorem find_matches_order:
  "sorted_wrt scan_before (find_matches doc query mode)
   \<and> find_matches doc query mode
       = filter (\<lambda>m. line_hit mode (normalize query) (m_text m)) (scan_order doc)
   \<and> (\<forall>m \<in> set (find_matches doc query mode).
         m_page m < length doc \<and> m_line_num m < length (page_lines doc (m_page m))
         \<and> m_text m = page_lines doc (m_page m) ! m_line_num m)"
proof -
  have "sorted_wrt scan_before (find_matches doc query mode)"
    unfolding find_matches_scan by (rule sorted_wrt_filter [OF scan_order_sorted])
  moreover have "\<forall>m \<in> set (find_matches doc query mode).
         m_page m < length doc \<and> m_line_num m < length (page_lines doc (m_page m))
         \<and> m_text m = page_lines doc (m_page m) ! m_line_num m"
    unfolding find_matches_scan by (simp add: in_scan_order)
  ultimately show ?thesis using find_matches_scan by blast
qed

theorem find_matches_order_witness:
  "find_matches names_doc ''JOHN SMITH'' ''Swimmer Name''
     = [\<lparr>m_page = 0, m_line_num = 2, m_text = ''John Smith''\<rparr>,
        \<lparr>m_page = 1, m_line_num = 0, m_text = ''JOHN SMITH  1:23.45''\<rparr>]
   \<and> sorted_wrt scan_before (find_matches names_doc ''JOHN SMITH'' ''Swimmer Name'')
   \<and> page_lines names_doc 0 ! 2 = ''John Smith''
   \<and> page_lines names_doc 1 ! 0 = ''JOHN SMITH  1:23.45''"
proof -
  have e: "find_matches names_doc ''JOHN SMITH'' ''Swimmer Name''
     = [\<lparr>m_page = 0, m_line_num = 2, m_text = ''John Smith''\<rparr>,
        \<lparr>m_page = 1, m_line_num = 0, m_text = ''JOHN SMITH  1:23.45''\<rparr>]"
    by code_simp
  show ?thesis
    using find_matches_order [of names_doc "''JOHN SMITH''" "''Swimmer Name''"] e
    by (simp add: scan_before_def)
qed

text \<open>
  C4. In any mode other than Team Code, which is Swimmer Name mode, the entry of a
  line is in the result exactly when the normalized query is a substring of the
  normalized line; and a query that is a substring of the normalized line as it is
  typed is one such case.
\<close>

theorem swimmer_name_rule:
  assumes "mode \<noteq> ''Team Code''"
  shows "(\<lparr>m_page = p, m_line_num = i, m_text = line\<rparr> \<in> set (find_matches doc query mode) \<longleftrightarrow>
            p < length doc \<and> i < length (page_lines doc p) \<and> page_lines doc p ! i = line
            \<and> sublist (normalize query) (normalize line))
         \<and> (p < length doc \<and> i < length (page_lines doc p) \<and> page_lines doc p ! i = line
            \<and> sublist query (normalize line)
            \<longrightarrow> \<lparr>m_page = p, m_line_num = i, m_text = line\<rparr> \<in> set (find_matches doc query mode))"
  unfolding find_matches_member using assms
  by (auto simp: line_hit_def str_in_sublist sublist_normalize_query)

theorem swimmer_name_rule_witness:
  "''Swimmer Name'' \<noteq> ''Team Code''
   \<and> sublist ''smith'' (normalize ''John Smith'')
   \<and> \<lparr>m_page = 0, m_line_num = 2, m_text = ''John Smith''\<rparr>
       \<in> set (find_matches names_doc ''smith'' ''Swimmer Name'')
   \<and> \<lparr>m_page = 1, m_line_num = 1, m_text = ''Jane Doe''\<rparr>
       \<notin> set (find_matches names_doc ''smith'' ''Swimmer Name'')"
proof -
  have m: "''Swimmer Name'' \<noteq> ''Team Code''" by simp
  have n: "length names_doc = 2" by (simp add: names_doc_def)
  have l0: "page_lines names_doc 0 = [''Heat 1'', ''Lane 4'', ''John Smith'']" by code_simp
  have l1: "page_lines names_doc 1 = [''JOHN SMITH  1:23.45'', ''Jane Doe'']" by code_simp
  have a: "sublist ''smith'' (normalize ''John Smith'')" by code_simp
  have b: "\<not> sublist (normalize ''smith'') (normalize ''Jane Doe'')" by code_simp
  have c: "sublist (normalize ''smith'') (normalize ''John Smith'')" by code_simp
  show ?thesis
    using swimmer_name_rule [OF m, of 0 2 "''John Smith''" names_doc "''smith''"]
      swimmer_name_rule [OF m, of 1 1 "''Jane Doe''" names_doc "''smith''"] n l0 l1 a b c
    by simp
qed


subsection \<open>The query that normalizes to the empty string\<close>

lemma prefix_single_map:
  assumes "\<And>x. f x = c \<longleftrightarrow> x = c"
  shows "prefix [c] (map f s) \<longleftrightarrow> prefix [c] s"
proof -
  have e: "c = f x \<longleftrightarrow> c = x" for x using assms [of x] by metis
  show ?thesis by (cases s) (simp_all add: e)
qed

lemma suffix_single_map:
  assumes "\<And>x. f x = c \<longleftrightarrow> x = c"
  shows "suffix [c] (map f s) \<longleftrightarrow> suffix [c] s"
proof -
  have e: "c = f x \<longleftrightarrow> c = x" for x using assms [of x] by metis
  show ?thesis by (cases s rule: rev_cases) (simp_all add: e)
qed

lemma sublist_double_map:
  assumes "\<And>x. f x = c \<longleftrightarrow> x = c"
  shows "sublist [c, c] (map f s) \<longleftrightarrow> sublist [c, c] s"
proof (induction s)
  case Nil
  show ?case by simp
next
  case (Cons a s)
  have e: "c = f x \<longleftrightarrow> c = x" for x using assms [of x] by metis
  have "prefix [c, c] (map f (a # s)) \<longleftrightarrow> prefix [c, c] (a # s)"
    by (cases s) (simp_all add: e)
  with Cons show ?case by (simp only: list.map sublist_Cons_right)
qed

lemma free_standing_empty_query:
  "free_standing (lower line) [] \<longleftrightarrow>
     line = [] \<or> prefix '' '' line \<or> prefix [CHR 0x09] line
     \<or> suffix '' '' line \<or> suffix [CHR 0x09] line
     \<or> sublist ''  '' line \<or> sublist [CHR 0x09, CHR 0x09] line"
  unfolding free_standing_def lower_def
  by (simp add: prefix_single_map [of lower_char, OF lower_char_eq_space]
      prefix_single_map [of lower_char, OF lower_char_eq_tab]
      suffix_single_map [of lower_char, OF lower_char_eq_space]
      suffix_single_map [of lower_char, OF lower_char_eq_tab]
      sublist_double_map [of lower_char, OF lower_char_eq_space]
      sublist_double_map [of lower_char, OF lower_char_eq_tab])

text \<open>
  C2, as the code has it. With a query that normalizes to the empty string, every
  line of the scan is returned outside Team Code mode; in Team Code mode a line is
  returned exactly when it is empty, begins or ends with a space or a tab, or holds
  two spaces in a row or two tabs in a row.
\<close>

theorem empty_query_rule:
  assumes "normalize query = []"
  shows "(mode \<noteq> ''Team Code'' \<longrightarrow> find_matches doc query mode = scan_order doc)
         \<and> (\<lparr>m_page = p, m_line_num = i, m_text = line\<rparr>
               \<in> set (find_matches doc query ''Team Code'') \<longleftrightarrow>
             p < length doc \<and> i < length (page_lines doc p) \<and> page_lines doc p ! i = line
             \<and> (line = [] \<or> prefix '' '' line \<or> prefix [CHR 0x09] line
                \<or> suffix '' '' line \<or> suffix [CHR 0x09] line
                \<or> sublist ''  '' line \<or> sublist [CHR 0x09, CHR 0x09] line))"
proof -
  have "find_matches doc query mode = scan_order doc" if "mode \<noteq> ''Team Code''"
    unfolding find_matches_scan using that assms by (simp add: line_hit_def str_in_sublist)
  moreover have "line_hit ''Team Code'' (normalize query) line \<longleftrightarrow>
      line = [] \<or> prefix '' '' line \<or> prefix [CHR 0x09] line
      \<or> suffix '' '' line \<or> suffix [CHR 0x09] line
      \<or> sublist ''  '' line \<or> sublist [CHR 0x09, CHR 0x09] line"
    unfolding assms line_hit_def contains_whole_team_free_standing
    by (simp add: free_standing_empty_query)
  ultimately show ?thesis unfolding find_matches_member by simp
qed

theorem empty_query_rule_witness:
  "normalize '' '' = []
   \<and> find_matches spaced_doc '' '' ''Swimmer Name'' = scan_order spaced_doc
   \<and> scan_order spaced_doc = [\<lparr>m_page = 0, m_line_num = 0, m_text = ''a  b''\<rparr>]
   \<and> \<lparr>m_page = 0, m_line_num = 0, m_text = ''a  b''\<rparr>
       \<in> set (find_matches spaced_doc '' '' ''Team Code'')"
proof -
  have q: "normalize '' '' = []" by code_simp
  have m: "''Swimmer Name'' \<noteq> ''Team Code''" by simp
  have n: "length spaced_doc = 1" by (simp add: spaced_doc_def)
  have l: "page_lines spaced_doc 0 = [''a  b'']" by code_simp
  have s: "scan_order spaced_doc = [\<lparr>m_page = 0, m_line_num = 0, m_text = ''a  b''\<rparr>]"
    by code_simp
  have d: "sublist ''  '' ''a  b''" by code_simp
  show ?thesis
    using empty_query_rule [OF q, of "''Swimmer Name''" spaced_doc 0 0 "''a  b''"] q m n l s d
    by simp
qed

text \<open>
  C2 as stated fails in Team Code mode: with the empty query the line \<open>a  b\<close>, which
  is not blank, is returned.
\<close>

theorem empty_query_team_code_counterexample:
  "normalize [] = []
   \<and> page_lines spaced_doc 0 = [''a  b'']
   \<and> strip ''a  b'' \<noteq> []
   \<and> find_matches spaced_doc [] ''Team Code''
       = [\<lparr>m_page = 0, m_line_num = 0, m_text = ''a  b''\<rparr>]"
  by code_simp


section \<open>The highlighter, loop by loop\<close>

lemma fold_keep_least:
  "fold (\<lambda>item cur. if item < cur then item else cur) xs (x::real) = Min (set (x # xs))"
proof -
  have "(\<lambda>item cur. if item < cur then item else cur) = (min :: real \<Rightarrow> real \<Rightarrow> real)"
    by (intro ext) (simp add: min_def)
  then show ?thesis by (simp only: Min.set_eq_fold)
qed

lemma fold_keep_greatest:
  "fold (\<lambda>item cur. if item > cur then item else cur) xs (x::real) = Max (set (x # xs))"
proof -
  have "(\<lambda>item cur. if item > cur then item else cur) = (max :: real \<Rightarrow> real \<Rightarrow> real)"
    by (intro ext) (simp add: max_def)
  then show ?thesis by (simp only: Max.set_eq_fold)
qed

lemma py_min_nonempty:
  assumes "xs \<noteq> []"
  shows "py_min xs = Inr (Min (set xs))"
proof (cases xs)
  case Nil
  with assms show ?thesis by simp
next
  case (Cons a list)
  show ?thesis unfolding Cons by (simp only: py_min.simps fold_keep_least)
qed

lemma py_max_nonempty:
  assumes "xs \<noteq> []"
  shows "py_max xs = Inr (Max (set xs))"
proof (cases xs)
  case Nil
  with assms show ?thesis by simp
next
  case (Cons a list)
  show ?thesis unfolding Cons by (simp only: py_max.simps fold_keep_greatest)
qed

lemma line_rect_spans:
  "line_rect line = (if spans line = [] then Inl ValueError else Inr (union_rect line))"
  unfolding line_rect_def union_rect_def
  by (simp add: py_min_nonempty py_max_nonempty)

lemma highlight_block_lines_eq:
  "highlight_block_lines t ls pg =
     (if \<forall>line \<in> set (filter (\<lambda>line. normalize (layout_text line) = normalize t) ls).
           spans line \<noteq> []
      then Inr (pg\<lparr>annots := annots pg
                  @ map union_rect (filter (\<lambda>line. normalize (layout_text line) = normalize t) ls)\<rparr>)
      else Inl ValueError)"
  by (induction ls arbitrary: pg)
     (auto simp: Let_def layout_text_def line_rect_spans add_highlight_annot_def)

lemma highlight_blocks_eq:
  "highlight_blocks t bs pg =
     (if \<forall>line \<in> set (filter (\<lambda>line. normalize (layout_text line) = normalize t)
                          (concat (map block_lines (filter (\<lambda>blk. block_type blk = 0) bs)))).
           spans line \<noteq> []
      then Inr (pg\<lparr>annots := annots pg
                  @ map union_rect (filter (\<lambda>line. normalize (layout_text line) = normalize t)
                          (concat (map block_lines (filter (\<lambda>blk. block_type blk = 0) bs))))\<rparr>)
      else Inl ValueError)"
  by (induction bs arbitrary: pg) (auto simp: highlight_block_lines_eq)

lemma highlight_matches_step:
  "highlight_matches doc (m # rest) =
     (if m_page m < length doc
      then (if \<forall>line \<in> set (located doc m). spans line \<noteq> []
            then highlight_matches (draw doc m) rest
            else Inl ValueError)
      else Inl IndexError)"
proof -
  have l: "filter (\<lambda>line. normalize (layout_text line) = normalize (m_text m))
             (concat (map block_lines (filter (\<lambda>blk. block_type blk = 0) (blocks (doc ! m_page m)))))
           = located doc m"
    by (simp add: located_def text_lines_def)
  show ?thesis
    unfolding highlight_matches.simps Let_def highlight_blocks_eq normalize_strip l draw_def
    by simp
qed

lemma length_draw: "length (draw doc m) = length doc"
  by (simp add: draw_def)

lemma blocks_draw: "blocks (draw doc m ! p) = blocks (doc ! p)"
  by (cases "m_page m < length doc") (simp_all add: draw_def nth_list_update list_update_beyond)

lemma plain_text_draw: "plain_text (draw doc m ! p) = plain_text (doc ! p)"
  by (cases "m_page m < length doc") (simp_all add: draw_def nth_list_update list_update_beyond)

lemma located_draw: "located (draw doc m') m = located doc m"
  by (simp add: located_def text_lines_def blocks_draw)

lemma annots_draw:
  "m_page m < length doc \<Longrightarrow>
   annots (draw doc m ! p)
     = annots (doc ! p) @ (if m_page m = p then map union_rect (located doc m) else [])"
  by (simp add: draw_def nth_list_update)

lemma draw_nothing: "located doc m = [] \<Longrightarrow> draw doc m = doc"
  by (simp add: draw_def)

lemma length_drawn: "length (drawn doc ms) = length doc"
  unfolding drawn_def by (induction ms arbitrary: doc) (simp_all add: length_draw)

lemma blocks_drawn: "blocks (drawn doc ms ! p) = blocks (doc ! p)"
  unfolding drawn_def by (induction ms arbitrary: doc) (simp_all add: blocks_draw)

lemma plain_text_drawn: "plain_text (drawn doc ms ! p) = plain_text (doc ! p)"
  unfolding drawn_def by (induction ms arbitrary: doc) (simp_all add: plain_text_draw)

lemma locatable_draw: "locatable (draw doc m') m \<longleftrightarrow> locatable doc m"
  by (simp add: locatable_def located_draw length_draw)

lemma annots_drawn:
  "\<forall>m \<in> set ms. m_page m < length doc \<Longrightarrow>
   annots (drawn doc ms ! p)
     = annots (doc ! p)
       @ concat (map (\<lambda>m. map union_rect (located doc m)) (filter (\<lambda>m. m_page m = p) ms))"
  unfolding drawn_def
  by (induction ms arbitrary: doc) (simp_all add: annots_draw length_draw located_draw)

lemma highlight_matches_locatable:
  "\<forall>m \<in> set ms. locatable doc m \<Longrightarrow> highlight_matches doc ms = Inr (drawn doc ms)"
proof (induction ms arbitrary: doc)
  case Nil
  show ?case by (simp add: drawn_def)
next
  case (Cons m ms)
  from Cons.prems have "\<forall>m' \<in> set ms. locatable (draw doc m) m'"
    by (simp add: locatable_draw)
  then have "highlight_matches (draw doc m) ms = Inr (drawn (draw doc m) ms)"
    by (rule Cons.IH)
  with Cons.prems show ?case
    by (simp only: highlight_matches_step) (simp add: locatable_def drawn_def)
qed

lemma highlight_matches_Inr:
  "highlight_matches doc ms = Inr doc' \<Longrightarrow> (\<forall>m \<in> set ms. locatable doc m)"
proof (induction ms arbitrary: doc)
  case Nil
  show ?case by simp
next
  case (Cons m ms)
  from Cons.prems have here: "locatable doc m" and rest: "highlight_matches (draw doc m) ms = Inr doc'"
    by (simp_all only: highlight_matches_step locatable_def split: if_splits) simp_all
  from Cons.IH [OF rest] have "\<forall>m' \<in> set ms. locatable doc m'"
    by (simp add: locatable_draw)
  with here show ?case by simp
qed

lemma highlight_matches_Inl:
  "highlight_matches doc ms = Inl e \<Longrightarrow>
     (e = IndexError \<and> (\<exists>m \<in> set ms. \<not> m_page m < length doc))
     \<or> (e = ValueError \<and> (\<exists>m \<in> set ms. \<exists>line \<in> set (located doc m). spans line = []))"
proof (induction ms arbitrary: doc)
  case Nil
  then show ?case by simp
next
  case (Cons m ms)
  show ?case
  proof (cases "locatable doc m")
    case True
    with Cons.prems have "highlight_matches (draw doc m) ms = Inl e"
      by (simp only: highlight_matches_step locatable_def split: if_splits) simp_all
    from Cons.IH [OF this] show ?thesis
      by (auto simp: located_draw length_draw)
  next
    case False
    with Cons.prems show ?thesis
      by (simp only: highlight_matches_step locatable_def split: if_splits) auto
  qed
qed

lemma highlight_matches_skip:
  assumes "m_page m < length doc" and "located doc m = []"
  shows "highlight_matches doc (ms1 @ m # ms2) = highlight_matches doc (ms1 @ ms2)"
  using assms
proof (induction ms1 arbitrary: doc)
  case Nil
  then show ?case by (simp only: highlight_matches_step append_Nil) (simp add: draw_nothing)
next
  case (Cons a ms1)
  have "highlight_matches (draw doc a) (ms1 @ m # ms2) = highlight_matches (draw doc a) (ms1 @ ms2)"
    using Cons.prems by (intro Cons.IH) (simp_all add: length_draw located_draw)
  then show ?case by (simp only: highlight_matches_step append_Cons)
qed

lemma highlight_lines_Inr:
  assumes "fitz_open input_bytes = Some doc"
    and "highlight_lines fitz_open save input_bytes matches = Inr out"
  shows "highlight_matches doc matches = Inr (drawn doc matches)
         \<and> out = save (drawn doc matches)
         \<and> (\<forall>m \<in> set matches. locatable doc m)"
proof -
  from assms obtain doc' where r: "highlight_matches doc matches = Inr doc'" and o: "out = save doc'"
    unfolding highlight_lines_def by (auto split: sum.splits)
  from highlight_matches_Inr [OF r] have l: "\<forall>m \<in> set matches. locatable doc m" .
  from highlight_matches_locatable [OF l] r have "doc' = drawn doc matches" by simp
  with r o l show ?thesis by simp
qed

lemma located_member:
  "line \<in> set (located doc m) \<longleftrightarrow>
     (\<exists>blk \<in> set (blocks (doc ! m_page m)). block_type blk = 0 \<and> line \<in> set (block_lines blk))
     \<and> normalize (layout_text line) = normalize (m_text m)"
  unfolding located_def text_lines_def by auto

lemma annots_drawn_split:
  assumes "\<forall>m \<in> set ms. m_page m < length doc" and "m \<in> set ms"
  shows "\<exists>before after.
           annots (drawn doc ms ! m_page m) = before @ map union_rect (located doc m) @ after"
proof -
  from assms(2) have "m \<in> set (filter (\<lambda>m'. m_page m' = m_page m) ms)" by simp
  then obtain xs ys where s: "filter (\<lambda>m'. m_page m' = m_page m) ms = xs @ m # ys"
    by (auto dest: split_list)
  show ?thesis
    unfolding annots_drawn [OF assms(1)] s
    by (intro exI [of _ "annots (doc ! m_page m) @ concat (map (\<lambda>m. map union_rect (located doc m)) xs)"]
              exI [of _ "concat (map (\<lambda>m. map union_rect (located doc m)) ys)"]) simp
qed

lemma highlight_matches_in_range:
  assumes "\<forall>m \<in> set ms. m_page m < length doc"
  shows "highlight_matches doc ms \<noteq> Inl IndexError"
  using highlight_matches_Inl [of doc ms IndexError] assms by auto


section \<open>Properties of the highlighter\<close>

text \<open>
  C3. The call fails with \<open>DocumentError\<close> exactly when the PDF library cannot open
  the bytes, and in that case it returns no bytes at all.
\<close>

theorem document_error_iff_unparseable:
  "(highlight_lines fitz_open save input_bytes matches = Inl DocumentError
      \<longleftrightarrow> fitz_open input_bytes = None)
   \<and> (fitz_open input_bytes = None
      \<longrightarrow> (\<forall>out. highlight_lines fitz_open save input_bytes matches \<noteq> Inr out))"
proof -
  have "highlight_matches doc matches \<noteq> Inl DocumentError" for doc
    using highlight_matches_Inl [of doc matches DocumentError] by auto
  then show ?thesis
    unfolding highlight_lines_def by (auto split: option.splits sum.splits)
qed

theorem document_error_iff_unparseable_witness:
  "example_open None = None
   \<and> highlight_lines example_open example_save None [team_match] = Inl DocumentError
   \<and> example_open (Some layout_doc) \<noteq> None
   \<and> highlight_lines example_open example_save (Some layout_doc) [team_match] \<noteq> Inl DocumentError"
  using document_error_iff_unparseable [of example_open example_save None "[team_match]"]
    document_error_iff_unparseable [of example_open example_save "Some layout_doc" "[team_match]"]
  by (simp add: example_open_def)

text \<open>
  C5. When every match has its page and every located line has a span, the call
  returns, and for every match and every line of a text block of the page of the
  match whose rebuilt text, trimmed and normalized, equals the normalized text of the
  match, the page of the saved document carries an annotation whose rectangle is the
  least \<open>x0\<close>, the least \<open>y0\<close>, the greatest \<open>x1\<close> and the greatest \<open>y1\<close> over the spans
  of the line. By \<open>highlight_lines_Inr\<close> these are the only calls that return.
\<close>

theorem located_line_rect:
  assumes "fitz_open input_bytes = Some doc"
    and "\<forall>m' \<in> set matches. locatable doc m'"
    and "m \<in> set matches"
    and "blk \<in> set (blocks (doc ! m_page m))" and "block_type blk = 0"
    and "line \<in> set (block_lines blk)"
    and "normalize (layout_text line) = normalize (m_text m)"
  shows "\<exists>doc'. highlight_lines fitz_open save input_bytes matches = Inr (save doc')
           \<and> highlight_matches doc matches = Inr doc'
           \<and> spans line \<noteq> []
           \<and> Rect (Min ((\<lambda>s. bbox_x0 (span_bbox s)) ` set (spans line)))
                   (Min ((\<lambda>s. bbox_y0 (span_bbox s)) ` set (spans line)))
                   (Max ((\<lambda>s. bbox_x1 (span_bbox s)) ` set (spans line)))
                   (Max ((\<lambda>s. bbox_y1 (span_bbox s)) ` set (spans line)))
               \<in> set (annots (doc' ! m_page m))"
proof -
  have run: "highlight_matches doc matches = Inr (drawn doc matches)"
    using assms(2) by (rule highlight_matches_locatable)
  then have out: "highlight_lines fitz_open save input_bytes matches
                    = Inr (save (drawn doc matches))"
    unfolding highlight_lines_def assms(1) by simp
  from assms(4-7) have loc: "line \<in> set (located doc m)"
    unfolding located_member by blast
  from assms(2,3) have ok: "locatable doc m" by blast
  with loc have ne: "spans line \<noteq> []" unfolding locatable_def by blast
  from assms(2) have inr: "\<forall>m \<in> set matches. m_page m < length doc"
    unfolding locatable_def by blast
  from annots_drawn_split [OF inr assms(3)] obtain before after where
    "annots (drawn doc matches ! m_page m) = before @ map union_rect (located doc m) @ after"
    by blast
  with loc have "union_rect line \<in> set (annots (drawn doc matches ! m_page m))" by simp
  with run out ne show ?thesis unfolding union_rect_def by blast
qed

theorem located_line_rect_witness:
  "example_open (Some layout_doc) = Some layout_doc
   \<and> locatable layout_doc team_match
   \<and> team_match \<in> set [team_match]
   \<and> \<lparr>block_type = 0, block_lines = [relay_line, split_line]\<rparr>
       \<in> set (blocks (layout_doc ! m_page team_match))
   \<and> block_type \<lparr>block_type = 0, block_lines = [relay_line, split_line]\<rparr> = 0
   \<and> split_line \<in> set (block_lines \<lparr>block_type = 0, block_lines = [relay_line, split_line]\<rparr>)
   \<and> normalize (layout_text split_line) = normalize (m_text team_match)
   \<and> (\<exists>doc'. highlight_lines example_open example_save (Some layout_doc) [team_match]
               = Inr (example_save doc')
           \<and> highlight_matches layout_doc [team_match] = Inr doc'
           \<and> spans split_line \<noteq> []
           \<and> Rect (Min ((\<lambda>s. bbox_x0 (span_bbox s)) ` set (spans split_line)))
                   (Min ((\<lambda>s. bbox_y0 (span_bbox s)) ` set (spans split_line)))
                   (Max ((\<lambda>s. bbox_x1 (span_bbox s)) ` set (spans split_line)))
                   (Max ((\<lambda>s. bbox_y1 (span_bbox s)) ` set (spans split_line)))
               \<in> set (annots (doc' ! m_page team_match)))
   \<and> Rect (Min ((\<lambda>s. bbox_x0 (span_bbox s)) ` set (spans split_line)))
           (Min ((\<lambda>s. bbox_y0 (span_bbox s)) ` set (spans split_line)))
           (Max ((\<lambda>s. bbox_x1 (span_bbox s)) ` set (spans split_line)))
           (Max ((\<lambda>s. bbox_y1 (span_bbox s)) ` set (spans split_line)))
       = Rect 10 98 130 112
   \<and> highlight_lines example_open example_save (Some layout_doc) [team_match]
       = Inr (Some [(layout_doc ! 0)\<lparr>annots := [Rect 10 98 130 112, Rect 10 200 130 212]\<rparr>])"
proof -
  have h1: "example_open (Some layout_doc) = Some layout_doc" by (simp add: example_open_def)
  have k: "locatable layout_doc team_match" by code_simp
  then have h2: "\<forall>m' \<in> set [team_match]. locatable layout_doc m'" by simp
  have h3: "team_match \<in> set [team_match]" by simp
  have h4: "\<lparr>block_type = 0, block_lines = [relay_line, split_line]\<rparr>
       \<in> set (blocks (layout_doc ! m_page team_match))"
    by (simp add: layout_doc_def team_match_def)
  have h5: "block_type \<lparr>block_type = 0, block_lines = [relay_line, split_line]\<rparr> = 0" by simp
  have h6: "split_line \<in> set (block_lines \<lparr>block_type = 0, block_lines = [relay_line, split_line]\<rparr>)"
    by simp
  have h7: "normalize (layout_text split_line) = normalize (m_text team_match)" by code_simp
  have v: "Rect (Min ((\<lambda>s. bbox_x0 (span_bbox s)) ` set (spans split_line)))
           (Min ((\<lambda>s. bbox_y0 (span_bbox s)) ` set (spans split_line)))
           (Max ((\<lambda>s. bbox_x1 (span_bbox s)) ` set (spans split_line)))
           (Max ((\<lambda>s. bbox_y1 (span_bbox s)) ` set (spans split_line)))
       = Rect 10 98 130 112"
    by (simp add: split_line_def)
  have e: "highlight_lines example_open example_save (Some layout_doc) [team_match]
       = Inr (Some [(layout_doc ! 0)\<lparr>annots := [Rect 10 98 130 112, Rect 10 200 130 212]\<rparr>])"
    by code_simp
  from h1 k h3 h4 h5 h6 h7 v e
    located_line_rect [where fitz_open = example_open and save = example_save,
      OF h1 h2 h3 h4 h5 h6 h7]
  show ?thesis by (intro conjI)
qed

text \<open>
  C6. When every match has its page and every located line has a span, the call
  returns, and the annotations of the page of a match hold, side by side and in
  layout order, one rectangle for each located line of the match, however many lines
  are located.
\<close>

theorem every_located_line_highlighted:
  assumes "fitz_open input_bytes = Some doc"
    and "\<forall>m' \<in> set matches. locatable doc m'"
    and "m \<in> set matches"
  shows "\<exists>doc' before after.
           highlight_lines fitz_open save input_bytes matches = Inr (save doc')
           \<and> highlight_matches doc matches = Inr doc'
           \<and> annots (doc' ! m_page m) = before @ map union_rect (located doc m) @ after"
proof -
  have run: "highlight_matches doc matches = Inr (drawn doc matches)"
    using assms(2) by (rule highlight_matches_locatable)
  then have out: "highlight_lines fitz_open save input_bytes matches
                    = Inr (save (drawn doc matches))"
    unfolding highlight_lines_def assms(1) by simp
  from assms(2) have inr: "\<forall>m \<in> set matches. m_page m < length doc"
    unfolding locatable_def by blast
  from annots_drawn_split [OF inr assms(3)] run out show ?thesis by blast
qed

theorem every_located_line_highlighted_witness:
  "example_open (Some layout_doc) = Some layout_doc
   \<and> locatable layout_doc team_match
   \<and> team_match \<in> set [team_match]
   \<and> located layout_doc team_match = [split_line, whole_line]
   \<and> map union_rect (located layout_doc team_match) = [Rect 10 98 130 112, Rect 10 200 130 212]
   \<and> (\<exists>doc' before after.
         highlight_lines example_open example_save (Some layout_doc) [team_match]
           = Inr (example_save doc')
         \<and> highlight_matches layout_doc [team_match] = Inr doc'
         \<and> annots (doc' ! m_page team_match)
             = before @ map union_rect (located layout_doc team_match) @ after)
   \<and> highlight_matches layout_doc [team_match]
       = Inr [(layout_doc ! 0)\<lparr>annots := [Rect 10 98 130 112, Rect 10 200 130 212]\<rparr>]"
proof -
  have h1: "example_open (Some layout_doc) = Some layout_doc" by (simp add: example_open_def)
  have k: "locatable layout_doc team_match" by code_simp
  then have h2: "\<forall>m' \<in> set [team_match]. locatable layout_doc m'" by simp
  have h3: "team_match \<in> set [team_match]" by simp
  have l: "located layout_doc team_match = [split_line, whole_line]" by code_simp
  have u: "map union_rect (located layout_doc team_match)
             = [Rect 10 98 130 112, Rect 10 200 130 212]"
    unfolding l by code_simp
  have e: "highlight_matches layout_doc [team_match]
       = Inr [(layout_doc ! 0)\<lparr>annots := [Rect 10 98 130 112, Rect 10 200 130 212]\<rparr>]"
    by code_simp
  from h1 k h3 l u e
    every_located_line_highlighted [where fitz_open = example_open and save = example_save,
      OF h1 h2 h3]
  show ?thesis by (intro conjI)
qed

text \<open>
  C7. A match whose page exists and for which no line is located is passed over: on
  its own it leaves the document as it is and raises nothing, and within a list of
  matches the call behaves as if the match were not in the list.
\<close>

theorem unlocated_match_skipped:
  assumes "fitz_open input_bytes = Some doc"
    and "m_page m < length doc"
    and "located doc m = []"
  shows "highlight_matches doc [m] = Inr doc
         \<and> highlight_lines fitz_open save input_bytes (earlier @ m # later)
             = highlight_lines fitz_open save input_bytes (earlier @ later)"
proof -
  have "highlight_matches doc [m] = Inr doc"
    using assms(2,3) by (simp only: highlight_matches_step) (simp add: draw_nothing)
  moreover have "highlight_lines fitz_open save input_bytes (earlier @ m # later)
             = highlight_lines fitz_open save input_bytes (earlier @ later)"
    unfolding highlight_lines_def assms(1)
    by (simp add: highlight_matches_skip [OF assms(2,3)])
  ultimately show ?thesis by simp
qed

theorem unlocated_match_skipped_witness:
  "example_open (Some layout_doc) = Some layout_doc
   \<and> m_page lost_match < length layout_doc
   \<and> located layout_doc lost_match = []
   \<and> highlight_matches layout_doc [lost_match] = Inr layout_doc
   \<and> highlight_lines example_open example_save (Some layout_doc) ([team_match] @ lost_match # [team_match])
       = highlight_lines example_open example_save (Some layout_doc) ([team_match] @ [team_match])"
proof -
  have h1: "example_open (Some layout_doc) = Some layout_doc" by (simp add: example_open_def)
  have h2: "m_page lost_match < length layout_doc" by (simp add: lost_match_def layout_doc_def)
  have h3: "located layout_doc lost_match = []" by code_simp
  from h1 h2 h3 unlocated_match_skipped [where fitz_open = example_open and save = example_save
      and input_bytes = "Some layout_doc" and doc = layout_doc and m = lost_match
      and earlier = "[team_match]" and later = "[team_match]", OF h1 h2 h3]
  show ?thesis by (intro conjI) simp_all
qed

text \<open>
  With an empty match list the loop over the matches does not run: the call saves the
  document as the library opened it, with no annotation added. Whether the saved
  bytes read back as a document with the same pages and texts is a matter of the PDF
  library's own \<open>save\<close> and \<open>open\<close>, which are parameters here.
\<close>

lemma highlight_lines_no_matches:
  assumes "fitz_open input_bytes = Some doc"
  shows "highlight_matches doc [] = Inr doc
         \<and> highlight_lines fitz_open save input_bytes [] = Inr (save doc)"
  using assms by (simp add: highlight_lines_def)

text \<open>
  C10. Every entry returned by the matcher has a page index below the page count and a
  line index below the number of plain-text lines of that page; hence the highlighter,
  run on the document opened from the same bytes, never fails at the page lookup.
\<close>

theorem match_indices_in_range:
  "(\<forall>m \<in> set (find_matches doc query mode).
      m_page m < length doc \<and> m_line_num m < length (page_lines doc (m_page m)))
   \<and> (fitz_open input_bytes = Some doc
      \<longrightarrow> highlight_lines fitz_open save input_bytes (find_matches doc query mode)
            \<noteq> Inl IndexError)"
proof -
  have r: "\<forall>m \<in> set (find_matches doc query mode).
      m_page m < length doc \<and> m_line_num m < length (page_lines doc (m_page m))"
    unfolding find_matches_scan by (simp add: in_scan_order)
  then have "highlight_matches doc (find_matches doc query mode) \<noteq> Inl IndexError"
    by (intro highlight_matches_in_range) blast
  then have "fitz_open input_bytes = Some doc
      \<longrightarrow> highlight_lines fitz_open save input_bytes (find_matches doc query mode)
            \<noteq> Inl IndexError"
    unfolding highlight_lines_def by (auto split: sum.splits)
  with r show ?thesis by blast
qed

theorem match_indices_in_range_witness:
  "find_matches layout_doc ''mac-ma'' ''Team Code''
     = [\<lparr>m_page = 0, m_line_num = 1, m_text = ''MAC-MA John Smith''\<rparr>,
        \<lparr>m_page = 0, m_line_num = 2, m_text = ''MAC-MA John Smith''\<rparr>]
   \<and> length layout_doc = 1 \<and> length (page_lines layout_doc 0) = 3
   \<and> example_open (Some layout_doc) = Some layout_doc
   \<and> highlight_lines example_open example_save (Some layout_doc)
        (find_matches layout_doc ''mac-ma'' ''Team Code'') \<noteq> Inl IndexError"
proof -
  have f: "find_matches layout_doc ''mac-ma'' ''Team Code''
     = [\<lparr>m_page = 0, m_line_num = 1, m_text = ''MAC-MA John Smith''\<rparr>,
        \<lparr>m_page = 0, m_line_num = 2, m_text = ''MAC-MA John Smith''\<rparr>]"
    by code_simp
  have n: "length layout_doc = 1" by (simp add: layout_doc_def)
  have l: "length (page_lines layout_doc 0) = 3" by code_simp
  have h1: "example_open (Some layout_doc) = Some layout_doc" by (simp add: example_open_def)
  from f n l h1
    match_indices_in_range [of layout_doc "''mac-ma''" "''Team Code''" example_open
      "Some layout_doc" example_save]
  show ?thesis by (intro conjI) blast+
qed

end
